theory Spec2Isabelle
  imports Main "HOL-Library.Word" "HOL-Library.Signed_Division" "HOL-Library.Log_Nat"
    "HOL-Library.Multiset"
begin

unbundle bit_operations_syntax

section \<open>Oblivious SRP: the integer type, the hash and the SRP client\<close>

text \<open>
  The development follows the source modules \<^verbatim>\<open>util/type-srp.cjs\<close> (class TypeSRP, a
  jsbn BigInteger together with a hex length), \<^verbatim>\<open>util/sha256.cjs\<close> (the variadic hash H) with
  \<^verbatim>\<open>util/params.cjs\<close> (N, g, k), and \<^verbatim>\<open>client/SRPClient.cjs\<close>.

  The arbitrary-precision integers of jsbn and the native BigInt of JavaScript are both
  \<^typ>\<open>int\<close>. The conversions between the two go through decimal strings
  (\<^verbatim>\<open>BigInt(x.toString(10))\<close>, \<^verbatim>\<open>new BigInteger(b.toString())\<close>) and are the identity
  on the integer denoted. A JavaScript string is a \<^typ>\<open>string\<close>; a thrown exception or a
  rejected promise is the left injection of a sum.
\<close>

type_synonym byte = "8 word"

datatype error =
    BadArgumentKind          \<comment> \<open>\<^verbatim>\<open>TypeError('Expected string or TypeSRP')\<close>\<close>
  | InvalidServerEphemeral   \<comment> \<open>\<^verbatim>\<open>Error('Server sent an invalid public ephemeral')\<close>\<close>
  | BadServerProof           \<comment> \<open>\<^verbatim>\<open>Error('Server provided session proof is invalid')\<close>\<close>
  | DivisionByZero           \<comment> \<open>the RangeError of \<^verbatim>\<open>%\<close> on BigInt with a zero divisor\<close>

definition bind_err :: "error + 'a \<Rightarrow> ('a \<Rightarrow> error + 'b) \<Rightarrow> error + 'b" where
  "bind_err r f = (case r of Inl e \<Rightarrow> Inl e | Inr v \<Rightarrow> f v)"

subsection \<open>Hexadecimal digits\<close>

text \<open>
  The value of a hexadecimal digit, in either case. Characters outside \<^verbatim>\<open>[0-9a-fA-F]\<close> have
  none.
\<close>

definition hexdig :: "char \<Rightarrow> nat option" where
  "hexdig = map_of
     [(CHR ''0'', 0), (CHR ''1'', 1), (CHR ''2'', 2), (CHR ''3'', 3), (CHR ''4'', 4),
      (CHR ''5'', 5), (CHR ''6'', 6), (CHR ''7'', 7), (CHR ''8'', 8), (CHR ''9'', 9),
      (CHR ''a'', 10), (CHR ''b'', 11), (CHR ''c'', 12), (CHR ''d'', 13), (CHR ''e'', 14),
      (CHR ''f'', 15),
      (CHR ''A'', 10), (CHR ''B'', 11), (CHR ''C'', 12), (CHR ''D'', 13), (CHR ''E'', 14),
      (CHR ''F'', 15)]"

definition is_hex :: "string \<Rightarrow> bool" where
  "is_hex s = list_all (\<lambda>c. hexdig c \<noteq> None) s"

text \<open>jsbn's digit table; \<^verbatim>\<open>toString(16)\<close> reads it at indices below 16 only.\<close>

definition int2char :: "nat \<Rightarrow> char" where
  "int2char d = ''0123456789abcdefghijklmnopqrstuvwxyz'' ! d"

text \<open>
  \<^verbatim>\<open>new BigInteger(input, 16)\<close>: base-16 positional reading, most significant digit first.
  The model is meant for hex strings (\<^const>\<open>is_hex\<close>); a character with no digit value is
  passed over, which is what jsbn does with a character that is not alphanumeric.
\<close>

fun parse16 :: "int \<Rightarrow> string \<Rightarrow> int" where
  "parse16 acc [] = acc"
| "parse16 acc (c # cs) =
     (case hexdig c of None \<Rightarrow> parse16 acc cs | Some d \<Rightarrow> parse16 (16 * acc + int d) cs)"

text \<open>
  \<^verbatim>\<open>BigInteger.toString(16)\<close>: the minimal lower-case digits, \<^verbatim>\<open>"0"\<close> for zero and a
  leading \<^verbatim>\<open>"-"\<close> on a negative number.
\<close>

function hex_digits :: "nat \<Rightarrow> string" where
  "hex_digits n = (if n = 0 then [] else hex_digits (n div 16) @ [int2char (n mod 16)])"
  by pat_completeness auto
termination
  by (relation "measure id") auto

declare hex_digits.simps [simp del]

definition toString16 :: "int \<Rightarrow> string" where
  "toString16 v =
     (if v < 0 then CHR ''-'' # hex_digits (nat (- v))
      else if v = 0 then ''0''
      else hex_digits (nat v))"

text \<open>The npm package \<^verbatim>\<open>pad-start\<close>: fill on the left up to the target length.\<close>

definition padStart :: "string \<Rightarrow> nat \<Rightarrow> char \<Rightarrow> string" where
  "padStart s maxLength fill = replicate (maxLength - length s) fill @ s"

subsection \<open>TypeSRP\<close>

record TypeSRP =
  bigInteger :: int
  hexLength :: "nat option"   \<comment> \<open>\<^verbatim>\<open>null\<close> is \<^const>\<open>None\<close>\<close>

definition fromHex :: "string \<Rightarrow> TypeSRP" where
  "fromHex input = \<lparr>bigInteger = parse16 0 input, hexLength = Some (length input)\<rparr>"

definition fromBigInt :: "int \<Rightarrow> TypeSRP" where
  "fromBigInt bigInt = \<lparr>bigInteger = bigInt, hexLength = None\<rparr>"

definition toBigInt :: "TypeSRP \<Rightarrow> int" where
  "toBigInt this = bigInteger this"

definition ZERO :: TypeSRP where
  "ZERO = \<lparr>bigInteger = 0, hexLength = None\<rparr>"

definition ONE :: TypeSRP where
  "ONE = \<lparr>bigInteger = 1, hexLength = None\<rparr>"

definition add :: "TypeSRP \<Rightarrow> TypeSRP \<Rightarrow> TypeSRP" where
  "add this val = \<lparr>bigInteger = bigInteger this + bigInteger val, hexLength = None\<rparr>"

definition equals :: "TypeSRP \<Rightarrow> TypeSRP \<Rightarrow> bool" where
  "equals this val \<longleftrightarrow> bigInteger this = bigInteger val"

definition multiply :: "TypeSRP \<Rightarrow> TypeSRP \<Rightarrow> TypeSRP" where
  "multiply this val = fromBigInt (toBigInt this * toBigInt val)"

text \<open>
  jsbn's \<^verbatim>\<open>divide\<close> truncates towards zero. With a zero divisor jsbn leaves the quotient
  (and the remainder of \<^verbatim>\<open>mod\<close> below) unset without throwing; the value given here for that
  case is the one of HOL, and no call in the modelled sources has a zero divisor.
\<close>

definition divide_srp :: "TypeSRP \<Rightarrow> TypeSRP \<Rightarrow> TypeSRP" where
  "divide_srp this val =
     \<lparr>bigInteger = bigInteger this sdiv bigInteger val, hexLength = hexLength this\<rparr>"

text \<open>
  jsbn's \<^verbatim>\<open>mod\<close>: the remainder of the absolute values, brought back into \<^verbatim>\<open>[0, m)\<close> when
  the receiver is negative. The hex length is the one of the modulus.
\<close>

definition bn_mod :: "int \<Rightarrow> int \<Rightarrow> int" where
  "bn_mod a m = (let r = \<bar>a\<bar> mod \<bar>m\<bar> in if a < 0 \<and> 0 < r then m - r else r)"

definition mod_srp :: "TypeSRP \<Rightarrow> TypeSRP \<Rightarrow> TypeSRP" where
  "mod_srp this m = \<lparr>bigInteger = bn_mod (bigInteger this) (bigInteger m), hexLength = hexLength m\<rparr>"

definition subtract :: "TypeSRP \<Rightarrow> TypeSRP \<Rightarrow> TypeSRP" where
  "subtract this val = \<lparr>bigInteger = bigInteger this - bigInteger val, hexLength = hexLength this\<rparr>"

definition xor_srp :: "TypeSRP \<Rightarrow> TypeSRP \<Rightarrow> TypeSRP" where
  "xor_srp this val = \<lparr>bigInteger = bigInteger this XOR bigInteger val, hexLength = hexLength this\<rparr>"

definition toHex :: "TypeSRP \<Rightarrow> string" where
  "toHex this =
     (let hex = toString16 (bigInteger this) in
      case hexLength this of
        None \<Rightarrow> hex
      | Some n \<Rightarrow> padStart hex n (CHR ''0''))"

text \<open>
  \<^verbatim>\<open>modularExponentiation(base, exp, mod)\<close> on BigInt: \<^verbatim>\<open>%\<close> takes the sign of the dividend,
  \<^verbatim>\<open>/\<close> truncates, and \<^verbatim>\<open>base % mod\<close> throws when \<^verbatim>\<open>mod\<close> is zero. The loop runs while
  \<^verbatim>\<open>exp > 0\<close>.
\<close>

function modexp_loop :: "int \<Rightarrow> int \<Rightarrow> int \<Rightarrow> int \<Rightarrow> int" where
  "modexp_loop result base e m =
     (if e > 0 then
        modexp_loop (if e smod 2 = 1 then (result * base) smod m else result)
                    ((base * base) smod m) (e sdiv 2) m
      else result)"
  by pat_completeness auto
termination
  by (relation "measure (\<lambda>(result, base, e, m). nat e)")
     (auto simp: signed_divide_int_def sgn_if)

declare modexp_loop.simps [simp del]

definition modularExponentiation :: "int \<Rightarrow> int \<Rightarrow> int \<Rightarrow> error + int" where
  "modularExponentiation base e m =
     (if m = 0 then Inl DivisionByZero else Inr (modexp_loop 1 (base smod m) e m))"

text \<open>
  The exponent and the modulus of \<^verbatim>\<open>modPow\<close> are each a TypeSRP or a native integer
  (a BigInt or an integral Number, which \<^verbatim>\<open>BigInt(...)\<close> converts).
\<close>

datatype int_arg = SRP TypeSRP | Native int

definition asBigInt :: "int_arg \<Rightarrow> int" where
  "asBigInt x = (case x of SRP v \<Rightarrow> toBigInt v | Native i \<Rightarrow> i)"

definition modPow :: "TypeSRP \<Rightarrow> int_arg \<Rightarrow> int_arg \<Rightarrow> error + TypeSRP" where
  "modPow this exponent m =
     (let expBigInt = asBigInt exponent; modBigInt = asBigInt m in
      bind_err (modularExponentiation (toBigInt this) expBigInt modBigInt)
               (\<lambda>r. Inr (fromBigInt r)))"

text \<open>
  \<^verbatim>\<open>toUint8Array\<close>: the hex digits, a \<^verbatim>\<open>'0'\<close> put in front when their number is odd, then one
  array element per two characters through \<^verbatim>\<open>parseInt(pair, 16)\<close>. \<^verbatim>\<open>parseInt\<close> reads a sign
  and the longest prefix of hex digits, and is NaN when there is none; storing into a
  Uint8Array reduces modulo 256 and turns NaN into 0.
\<close>

definition parseInt16 :: "string \<Rightarrow> int option" where
  "parseInt16 s =
     (let (sign, r) = (case s of
                         [] \<Rightarrow> (1, [])
                       | c # cs \<Rightarrow> if c = CHR ''-'' then (- 1, cs)
                                   else if c = CHR ''+'' then (1, cs) else (1, s));
          ds = takeWhile (\<lambda>c. hexdig c \<noteq> None) r
      in if ds = [] then None else Some (sign * parse16 0 ds))"

definition toUint8 :: "int option \<Rightarrow> byte" where
  "toUint8 x = (case x of None \<Rightarrow> 0 | Some i \<Rightarrow> word_of_int i)"

fun pairs_to_bytes :: "string \<Rightarrow> byte list" where
  "pairs_to_bytes (c1 # c2 # cs) = toUint8 (parseInt16 [c1, c2]) # pairs_to_bytes cs"
| "pairs_to_bytes cs = []"

definition toUint8Array :: "TypeSRP \<Rightarrow> byte list" where
  "toUint8Array this =
     (let hex = toString16 (bigInteger this);
          hex = (if length hex mod 2 \<noteq> 0 then CHR ''0'' # hex else hex)
      in pairs_to_bytes hex)"

subsection \<open>SHA-256\<close>

text \<open>
  Node's \<^verbatim>\<open>crypto.createHash('sha256')\<close>: the hash object accumulates the bytes of its
  \<^verbatim>\<open>update\<close> calls, and \<^verbatim>\<open>digest\<close> is SHA-256 (FIPS 180-4) of what was accumulated.
\<close>

type_synonym w32 = "32 word"
type_synonym sha_state = "w32 \<times> w32 \<times> w32 \<times> w32 \<times> w32 \<times> w32 \<times> w32 \<times> w32"

text \<open>
  The round constants (the first 32 bits of the fractional parts of the cube roots of the
  first 64 primes) and the initial hash value (likewise from the square roots of the first
  8 primes), in decimal.
\<close>

definition K256 :: "w32 list" where
  "K256 =
    [1116352408, 1899447441, 3049323471, 3921009573, 961987163, 1508970993,
     2453635748, 2870763221, 3624381080, 310598401, 607225278, 1426881987,
     1925078388, 2162078206, 2614888103, 3248222580, 3835390401, 4022224774,
     264347078, 604807628, 770255983, 1249150122, 1555081692, 1996064986,
     2554220882, 2821834349, 2952996808, 3210313671, 3336571891, 3584528711,
     113926993, 338241895, 666307205, 773529912, 1294757372, 1396182291,
     1695183700, 1986661051, 2177026350, 2456956037, 2730485921, 2820302411,
     3259730800, 3345764771, 3516065817, 3600352804, 4094571909, 275423344,
     430227734, 506948616, 659060556, 883997877, 958139571, 1322822218,
     1537002063, 1747873779, 1955562222, 2024104815, 2227730452, 2361852424,
     2428436474, 2756734187, 3204031479, 3329325298]"

definition H256 :: sha_state where
  "H256 = (1779033703, 3144134277, 1013904242, 2773480762,
           1359893119, 2600822924, 528734635, 1541459225)"

definition Ch :: "w32 \<Rightarrow> w32 \<Rightarrow> w32 \<Rightarrow> w32" where
  "Ch x y z = (x AND y) XOR (NOT x AND z)"

definition Maj :: "w32 \<Rightarrow> w32 \<Rightarrow> w32 \<Rightarrow> w32" where
  "Maj x y z = (x AND y) XOR (x AND z) XOR (y AND z)"

definition Sigma0 :: "w32 \<Rightarrow> w32" where
  "Sigma0 x = word_rotr 2 x XOR word_rotr 13 x XOR word_rotr 22 x"

definition Sigma1 :: "w32 \<Rightarrow> w32" where
  "Sigma1 x = word_rotr 6 x XOR word_rotr 11 x XOR word_rotr 25 x"

definition sigma0 :: "w32 \<Rightarrow> w32" where
  "sigma0 x = word_rotr 7 x XOR word_rotr 18 x XOR drop_bit 3 x"

definition sigma1 :: "w32 \<Rightarrow> w32" where
  "sigma1 x = word_rotr 17 x XOR word_rotr 19 x XOR drop_bit 10 x"

definition length_bytes :: "nat \<Rightarrow> byte list" where
  "length_bytes n =
     (let w = (of_nat n :: 64 word)
      in map (\<lambda>i. ucast (drop_bit (8 * i) w)) [7, 6, 5, 4, 3, 2, 1, 0 :: nat])"

definition sha_pad :: "byte list \<Rightarrow> byte list" where
  "sha_pad msg =
     (let l = length msg
      in msg @ [0x80] @ replicate ((119 - l mod 64) mod 64) 0 @ length_bytes (8 * l))"

fun be_words :: "byte list \<Rightarrow> w32 list" where
  "be_words (a # b # c # d # bs) =
     (push_bit 24 (ucast a) OR push_bit 16 (ucast b) OR push_bit 8 (ucast c) OR ucast d)
       # be_words bs"
| "be_words bs = []"

fun schedule :: "nat \<Rightarrow> w32 list \<Rightarrow> w32 list" where
  "schedule 0 ws = ws"
| "schedule (Suc n) ws =
     (let t = length ws
      in schedule n (ws @ [sigma1 (ws ! (t - 2)) + ws ! (t - 7) + sigma0 (ws ! (t - 15))
                             + ws ! (t - 16)]))"

fun sha_round :: "sha_state \<Rightarrow> w32 \<times> w32 \<Rightarrow> sha_state" where
  "sha_round (a, b, c, d, e, f, g, h) (k, w) =
     (let t1 = h + Sigma1 e + Ch e f g + k + w;
          t2 = Sigma0 a + Maj a b c
      in (t1 + t2, a, b, c, d + t1, e, f, g))"

fun add_state :: "sha_state \<Rightarrow> sha_state \<Rightarrow> sha_state" where
  "add_state (a, b, c, d, e, f, g, h) (a', b', c', d', e', f', g', h') =
     (a + a', b + b', c + c', d + d', e + e', f + f', g + g', h + h')"

definition compress :: "sha_state \<Rightarrow> byte list \<Rightarrow> sha_state" where
  "compress st block = add_state st (foldl sha_round st (zip K256 (schedule 48 (be_words block))))"

function sha_blocks :: "sha_state \<Rightarrow> byte list \<Rightarrow> sha_state" where
  "sha_blocks st bs =
     (if length bs < 64 then st else sha_blocks (compress st (take 64 bs)) (drop 64 bs))"
  by pat_completeness auto
termination
  by (relation "measure (\<lambda>(st, bs). length bs)") auto

definition word_bytes :: "w32 \<Rightarrow> byte list" where
  "word_bytes w = [ucast (drop_bit 24 w), ucast (drop_bit 16 w), ucast (drop_bit 8 w), ucast w]"

fun state_bytes :: "sha_state \<Rightarrow> byte list" where
  "state_bytes (a, b, c, d, e, f, g, h) = concat (map word_bytes [a, b, c, d, e, f, g, h])"

definition sha256_digest :: "byte list \<Rightarrow> byte list" where
  "sha256_digest msg = state_bytes (sha_blocks H256 (sha_pad msg))"

declare sha_blocks.simps [simp del]

text \<open>\<^verbatim>\<open>digest('hex')\<close>: two lower-case hex digits per byte.\<close>

definition byte_hex :: "byte \<Rightarrow> string" where
  "byte_hex b = [int2char (unat b div 16), int2char (unat b mod 16)]"

definition digest_hex :: "byte list \<Rightarrow> string" where
  "digest_hex bs = concat (map byte_hex bs)"

text \<open>
  Node's \<^verbatim>\<open>Buffer.from(string, 'hex')\<close>: one byte per two hex digits; decoding stops at the
  first pair that is not two hex digits, and a single digit left at the end is dropped.
\<close>

fun buffer_from_hex :: "string \<Rightarrow> byte list" where
  "buffer_from_hex (c1 # c2 # cs) =
     (case (hexdig c1, hexdig c2) of
        (Some d1, Some d2) \<Rightarrow> of_nat (16 * d1 + d2) # buffer_from_hex cs
      | _ \<Rightarrow> [])"
| "buffer_from_hex cs = []"

text \<open>
  \<^verbatim>\<open>h.update(string)\<close> absorbs the UTF-8 encoding of the string. A \<^typ>\<open>char\<close> is a code
  point below 256: one byte below 128, two bytes from there on.
\<close>

definition utf8_char :: "char \<Rightarrow> byte list" where
  "utf8_char c = (let n = (of_char c :: nat) in
     if n < 128 then [of_nat n] else [of_nat (192 + n div 64), of_nat (128 + n mod 64)])"

definition utf8 :: "string \<Rightarrow> byte list" where
  "utf8 s = concat (map utf8_char s)"

subsection \<open>The hash H (\<^verbatim>\<open>Sha256.hash\<close>)\<close>

text \<open>
  An argument of \<^verbatim>\<open>hash\<close> is a TypeSRP, a string, or any other JavaScript value. The first
  parameter of the loop is what the hash object has absorbed so far.
\<close>

datatype hash_arg = ArgSRP TypeSRP | ArgString string | ArgOther

fun hash_loop :: "byte list \<Rightarrow> hash_arg list \<Rightarrow> error + byte list" where
  "hash_loop h [] = Inr h"
| "hash_loop h (ArgSRP v # args) = hash_loop (h @ buffer_from_hex (toHex v)) args"
| "hash_loop h (ArgString s # args) = hash_loop (h @ utf8 s) args"
| "hash_loop h (ArgOther # args) = Inl BadArgumentKind"

definition hash :: "hash_arg list \<Rightarrow> error + TypeSRP" where
  "hash args =
     bind_err (hash_loop [] args) (\<lambda>h. Inr (fromHex (digest_hex (sha256_digest h))))"

subsection \<open>Params\<close>

definition largeSafePrime :: string where
  "largeSafePrime =
     ''\<newline>        FFFFFFFF FFFFFFFF C90FDAA2 2168C234 C4C6628B 80DC1CD1 29024E08'' @
     ''\<newline>        8A67CC74 020BBEA6 3B139B22 514A0879 8E3404DD EF9519B3 CD3A431B'' @
     ''\<newline>        302B0A6D F25F1437 4FE1356D 6D51C245 E485B576 625E7EC6 F44C42E9'' @
     ''\<newline>        A637ED6B 0BFF5CB6 F406B7ED EE386BFB 5A899FA5 AE9F2411 7C4B1FE6'' @
     ''\<newline>        49286651 ECE45B3D C2007CB8 A163BF05 98DA4836 1C55D39A 69163FA8'' @
     ''\<newline>        FD24CF5F 83655D23 DCA3AD96 1C62F356 208552BB 9ED52907 7096966D'' @
     ''\<newline>        670C354E 4ABC9804 F1746C08 CA18217C 32905E46 2E36CE3B E39E772C'' @
     ''\<newline>        180E8603 9B2783A2 EC07A28F B5C55DF0 6F4C52C9 DE2BCBF6 95581718'' @
     ''\<newline>        3995497C EA956AE5 15D22618 98FA0510 15728E5A 8AAAC42D AD33170D'' @
     ''\<newline>        04507A33 A85521AB DF1CBA64 ECFB8504 58DBEF0A 8AEA7157 5D060C7D'' @
     ''\<newline>        B3970F85 A6E1E4C7 ABF5AE8C DB0933D7 1E8C94E0 4A25619D CEE3D226'' @
     ''\<newline>        1AD2EE6B F12FFA06 D98A0864 D8760273 3EC86A64 521F2B18 177B200C'' @
     ''\<newline>        BBE11757 7A615D6C 770988C0 BAD946E2 08E24FA0 74E5AB31 43DB5BFC'' @
     ''\<newline>        E0FD108E 4B82D120 A93AD2CA FFFFFFFF FFFFFFFF'' @
     ''\<newline>      ''"

text \<open>\<^verbatim>\<open>replace(/\s+/g, '')\<close>: the white space of JavaScript among the code points below 256.\<close>

definition is_space :: "char \<Rightarrow> bool" where
  "is_space c \<longleftrightarrow> (of_char c :: nat) \<in> {9, 10, 11, 12, 13, 32, 160}"

definition remove_spaces :: "string \<Rightarrow> string" where
  "remove_spaces s = filter (\<lambda>c. \<not> is_space c) s"

definition params_N :: TypeSRP where
  "params_N = fromHex (remove_spaces largeSafePrime)"

definition params_g :: TypeSRP where
  "params_g = fromHex (remove_spaces ''05'')"

definition params_k :: "error + TypeSRP" where
  "params_k = hash [ArgSRP params_N, ArgSRP params_g]"

definition hashOutputBytes :: nat where
  "hashOutputBytes = 256 div 8"

subsection \<open>SRPClient\<close>

record session =
  session_key :: string     \<comment> \<open>the field \<^verbatim>\<open>key\<close>\<close>
  session_proof :: string   \<comment> \<open>the field \<^verbatim>\<open>proof\<close>\<close>


definition deriveSession ::
  "string \<Rightarrow> string \<Rightarrow> string \<Rightarrow> string \<Rightarrow> string \<Rightarrow> error + session" where
  "deriveSession clientSecretEphemeral serverPublicEphemeral salt username verifierHash =
     bind_err params_k (\<lambda>k.
       let a = fromHex clientSecretEphemeral;
           B = fromHex serverPublicEphemeral;
           s = fromHex salt;
           I = username;
           x = fromHex verifierHash
       in if equals (mod_srp B params_N) ZERO then Inl InvalidServerEphemeral
          else
            bind_err (modPow params_g (SRP a) (SRP params_N)) (\<lambda>A.
            bind_err (hash [ArgSRP A, ArgSRP B]) (\<lambda>u.
            bind_err (modPow params_g (SRP x) (SRP params_N)) (\<lambda>gx.
            bind_err (modPow (mod_srp (subtract (add B params_N)
                                                (mod_srp (multiply k gx) params_N))
                                      params_N)
                             (SRP (add a (multiply u x))) (SRP params_N)) (\<lambda>S.
            bind_err (hash [ArgSRP S]) (\<lambda>K.
            bind_err (hash [ArgSRP params_N]) (\<lambda>hN.
            bind_err (hash [ArgSRP params_g]) (\<lambda>hg.
            bind_err (hash [ArgString I]) (\<lambda>hI.
            bind_err (hash [ArgSRP (xor_srp hN hg), ArgSRP hI, ArgSRP s, ArgSRP A, ArgSRP B,
                            ArgSRP K]) (\<lambda>M.
            Inr \<lparr>session_key = toHex K, session_proof = toHex M\<rparr>))))))))))"


section \<open>Notions of the specification\<close>

text \<open>
  Terms in which the properties below are stated: a string with its letters \<open>A\<close> to \<open>Z\<close> in
  lower case (the \<open>to_lower\<close> of a hex string), the integer that a byte string denotes in
  big-endian order, and a digit string brought to even length by a zero in front.
\<close>

definition toLowerCase_char :: "char \<Rightarrow> char" where
  "toLowerCase_char c =
     (case map_of (zip ''ABCDEFGHIJKLMNOPQRSTUVWXYZ'' ''abcdefghijklmnopqrstuvwxyz'') c of
        Some l \<Rightarrow> l
      | None \<Rightarrow> c)"

definition toLowerCase :: "string \<Rightarrow> string" where
  "toLowerCase s = map toLowerCase_char s"

definition big_endian :: "byte list \<Rightarrow> int" where
  "big_endian bs = foldl (\<lambda>acc b. 256 * acc + uint b) 0 bs"

definition pad_even :: "string \<Rightarrow> string" where
  "pad_even hex = (if odd (length hex) then CHR ''0'' # hex else hex)"

text \<open>
  The hash H of the specification (4.2): each argument is a BigInt or a string; a BigInt is
  absorbed as the raw bytes of its hex encoding brought to even length, a string as its
  UTF-8 bytes; the digest is read as a big-endian integer and returned with
  \<open>hex_width = 2 * digest length\<close>. The hex encoding \<open>to_hex\<close> (4.1) has the digits of the
  value, filled with zeros on the left up to \<open>hex_width\<close> when it is set. Both are written
  here with the digits and bytes of the number itself.
\<close>

function spec_min_digits :: "nat \<Rightarrow> nat" where
  "spec_min_digits n = (if n < 16 then 1 else Suc (spec_min_digits (n div 16)))"
  by pat_completeness auto
termination
  by (relation "measure id") auto

declare spec_min_digits.simps [simp del]

definition spec_hex_length :: "TypeSRP \<Rightarrow> nat" where
  "spec_hex_length v =
     (let d = spec_min_digits (nat (bigInteger v))
      in case hexLength v of None \<Rightarrow> d | Some w \<Rightarrow> max w d)"

definition spec_to_hex :: "TypeSRP \<Rightarrow> string" where
  "spec_to_hex v =
     (let n = nat (bigInteger v); len = spec_hex_length v
      in map (\<lambda>i. int2char ((n div 16 ^ (len - Suc i)) mod 16)) [0..<len])"

definition spec_bigint_bytes :: "TypeSRP \<Rightarrow> byte list" where
  "spec_bigint_bytes v =
     (let n = nat (bigInteger v); len = (spec_hex_length v + 1) div 2
      in map (\<lambda>i. of_nat ((n div 256 ^ (len - Suc i)) mod 256)) [0..<len])"

datatype spec_arg = SpecBigInt TypeSRP | SpecString string

fun spec_absorbed :: "spec_arg \<Rightarrow> byte list" where
  "spec_absorbed (SpecBigInt v) = spec_bigint_bytes v"
| "spec_absorbed (SpecString s) = utf8 s"

definition spec_H :: "spec_arg list \<Rightarrow> TypeSRP" where
  "spec_H args =
     (let digest = sha256_digest (concat (map spec_absorbed args))
      in \<lparr>bigInteger = big_endian digest, hexLength = Some (2 * length digest)\<rparr>)"

text \<open>
  The session of \<open>derive_session\<close> as the specification computes it (4.5):
  \<open>A = g^a mod N\<close>, \<open>u = H(A, B)\<close>, \<open>S = ((B + N - (k g^x mod N)) mod N)^(a + u x) mod N\<close>,
  \<open>K = H(S)\<close>, \<open>M = H(H(N) xor H(g), H(username), salt, A, B, K)\<close>, key \<open>K.to_hex()\<close> and
  proof \<open>M.to_hex()\<close>, with \<open>k = H(N, g)\<close>. The results of the arithmetic, \<open>A\<close> and \<open>S\<close>, carry
  no hex width; the xor carries the width of its left operand.
\<close>

definition spec_deriveSession ::
  "string \<Rightarrow> string \<Rightarrow> string \<Rightarrow> string \<Rightarrow> string \<Rightarrow> session" where
  "spec_deriveSession a_hex B_hex s_hex I x_hex =
     (let N = bigInteger params_N;
          g = bigInteger params_g;
          k = bigInteger (spec_H [SpecBigInt params_N, SpecBigInt params_g]);
          a = bigInteger (fromHex a_hex);
          B = bigInteger (fromHex B_hex);
          x = bigInteger (fromHex x_hex);
          A = \<lparr>bigInteger = g ^ nat a mod N, hexLength = None\<rparr>;
          u = bigInteger (spec_H [SpecBigInt A, SpecBigInt (fromHex B_hex)]);
          S = \<lparr>bigInteger = ((B + N - (k * g ^ nat x mod N)) mod N) ^ nat (a + u * x) mod N,
               hexLength = None\<rparr>;
          K = spec_H [SpecBigInt S];
          HN = spec_H [SpecBigInt params_N];
          Hg = spec_H [SpecBigInt params_g];
          M = spec_H [SpecBigInt \<lparr>bigInteger = bigInteger HN XOR bigInteger Hg,
                                   hexLength = hexLength HN\<rparr>,
                      SpecBigInt (spec_H [SpecString I]), SpecBigInt (fromHex s_hex),
                      SpecBigInt A, SpecBigInt (fromHex B_hex), SpecBigInt K]
      in \<lparr>session_key = spec_to_hex K, session_proof = spec_to_hex M\<rparr>)"

section \<open>Closed forms of the results of the source\<close>

text \<open>
  The bytes that \<open>hash\<close> hands to the hash object for one argument, and the value that
  \<open>hash\<close> returns on arguments that are all TypeSRP or strings (lemma \<open>hash_value\<close> below).
\<close>

fun absorbed :: "hash_arg \<Rightarrow> byte list" where
  "absorbed (ArgSRP v) = buffer_from_hex (toHex v)"
| "absorbed (ArgString s) = utf8 s"
| "absorbed ArgOther = []"

definition H_value :: "hash_arg list \<Rightarrow> TypeSRP" where
  "H_value args = fromHex (digest_hex (sha256_digest (concat (map absorbed args))))"

text \<open>
  The session that \<open>deriveSession\<close> returns when the check on \<open>B\<close> passes, with the
  operations of TypeSRP and the loop of \<open>modPow\<close> carried out on the integers (lemma
  \<open>deriveSession_cases\<close> below).
\<close>

definition deriveSession_value ::
  "string \<Rightarrow> string \<Rightarrow> string \<Rightarrow> string \<Rightarrow> string \<Rightarrow> session" where
  "deriveSession_value a_hex B_hex s_hex I x_hex =
     (let N = bigInteger params_N;
          g = bigInteger params_g;
          k = bigInteger (H_value [ArgSRP params_N, ArgSRP params_g]);
          a = bigInteger (fromHex a_hex);
          B = bigInteger (fromHex B_hex);
          x = bigInteger (fromHex x_hex);
          A = fromBigInt (g ^ nat a mod N);
          u = bigInteger (H_value [ArgSRP A, ArgSRP (fromHex B_hex)]);
          S = fromBigInt (((B + N - (k * g ^ nat x mod N)) mod N) ^ nat (a + u * x) mod N);
          K = H_value [ArgSRP S];
          M = H_value [ArgSRP (xor_srp (H_value [ArgSRP params_N]) (H_value [ArgSRP params_g])),
                       ArgSRP (H_value [ArgString I]), ArgSRP (fromHex s_hex), ArgSRP A,
                       ArgSRP (fromHex B_hex), ArgSRP K]
      in \<lparr>session_key = toHex K, session_proof = toHex M\<rparr>)"

section \<open>Hexadecimal reading and writing\<close>

lemma hexdig_cases:
  assumes "hexdig c = Some d"
  shows "(c, d) \<in> {(CHR ''0'', 0), (CHR ''1'', 1), (CHR ''2'', 2), (CHR ''3'', 3), (CHR ''4'', 4),
      (CHR ''5'', 5), (CHR ''6'', 6), (CHR ''7'', 7), (CHR ''8'', 8), (CHR ''9'', 9),
      (CHR ''a'', 10), (CHR ''b'', 11), (CHR ''c'', 12), (CHR ''d'', 13), (CHR ''e'', 14),
      (CHR ''f'', 15),
      (CHR ''A'', 10), (CHR ''B'', 11), (CHR ''C'', 12), (CHR ''D'', 13), (CHR ''E'', 14),
      (CHR ''F'', 15)}"
proof -
  have "(c, d) \<in> set [(CHR ''0'', 0), (CHR ''1'', 1), (CHR ''2'', 2), (CHR ''3'', 3), (CHR ''4'', 4),
      (CHR ''5'', 5), (CHR ''6'', 6), (CHR ''7'', 7), (CHR ''8'', 8), (CHR ''9'', 9),
      (CHR ''a'', 10), (CHR ''b'', 11), (CHR ''c'', 12), (CHR ''d'', 13), (CHR ''e'', 14),
      (CHR ''f'', 15),
      (CHR ''A'', 10), (CHR ''B'', 11), (CHR ''C'', 12), (CHR ''D'', 13), (CHR ''E'', 14),
      (CHR ''F'', 15)]"
    using assms unfolding hexdig_def by (rule map_of_SomeD)
  then show ?thesis by simp
qed

lemma hexdig_less_16: "hexdig c = Some d \<Longrightarrow> d < 16"
  by (drule hexdig_cases) auto

lemma less_16_cases:
  "d < 16 \<Longrightarrow> d \<in> {0, 1, 2, 3, 4, 5, 6, 7, 8, 9, 10, 11, 12, 13, 14, 15::nat}"
  by (simp only: insert_iff empty_iff) arith

lemma int2char_of_hexdig: "hexdig c = Some d \<Longrightarrow> int2char d = toLowerCase_char c"
  by (drule hexdig_cases, simp only: insert_iff empty_iff prod.inject, elim disjE conjE)
     (simp_all add: int2char_def toLowerCase_char_def)

lemma hexdig_int2char: "d < 16 \<Longrightarrow> hexdig (int2char d) = Some d"
  by (drule less_16_cases, simp only: insert_iff empty_iff, elim disjE)
     (simp_all add: int2char_def hexdig_def)


lemma parse16_snoc:
  "parse16 acc (s @ [c]) =
     (case hexdig c of None \<Rightarrow> parse16 acc s | Some d \<Rightarrow> 16 * parse16 acc s + int d)"
  by (induction s arbitrary: acc) (auto split: option.splits)

lemma parse16_nonneg: "0 \<le> acc \<Longrightarrow> 0 \<le> parse16 acc s"
  by (induction s arbitrary: acc) (auto split: option.splits)

lemma is_hex_snoc: "is_hex (s @ [c]) \<longleftrightarrow> is_hex s \<and> hexdig c \<noteq> None"
  by (simp add: is_hex_def)

lemma hex_digits_0: "hex_digits 0 = []"
  by (simp add: hex_digits.simps)

lemma hex_digits_step:
  "d < 16 \<Longrightarrow>
   hex_digits (16 * n + d) = (if n = 0 \<and> d = 0 then [] else hex_digits n @ [int2char d])"
  by (subst hex_digits.simps) simp

lemma pad_hex_digits:
  assumes "is_hex s"
  shows "length (hex_digits (nat (parse16 0 s))) \<le> length s \<and>
         replicate (length s - length (hex_digits (nat (parse16 0 s)))) (CHR ''0'')
           @ hex_digits (nat (parse16 0 s)) = toLowerCase s"
  using assms
proof (induction s rule: rev_induct)
  case Nil
  show ?case by (simp add: hex_digits_0 toLowerCase_def)
next
  case (snoc c s)
  from snoc.prems obtain d where hs: "is_hex s" and d: "hexdig c = Some d"
    by (auto simp: is_hex_snoc)
  define v where "v = nat (parse16 0 s)"
  have v0: "0 \<le> parse16 0 s" by (rule parse16_nonneg) simp
  have val: "nat (parse16 0 (s @ [c])) = 16 * v + d"
    using v0 by (simp add: parse16_snoc d v_def nat_add_distrib nat_mult_distrib)
  have d16: "d < 16" using d by (rule hexdig_less_16)
  have low: "toLowerCase_char c = int2char d" using d by (simp add: int2char_of_hexdig)
  from snoc.IH [OF hs] have len: "length (hex_digits v) \<le> length s"
    and pad: "replicate (length s - length (hex_digits v)) (CHR ''0'') @ hex_digits v
                = toLowerCase s"
    by (simp_all add: v_def)
  show ?case
  proof (cases "v = 0 \<and> d = 0")
    case True
    then have "toLowerCase s = replicate (length s) (CHR ''0'')"
      using pad by (simp add: hex_digits_0)
    moreover have "int2char 0 = CHR ''0''" by (simp add: int2char_def)
    ultimately show ?thesis
      using True by (simp add: val hex_digits_0 toLowerCase_def low replicate_append_same)
  next
    case False
    then have hd: "hex_digits (16 * v + d) = hex_digits v @ [int2char d]"
      using d16 by (simp add: hex_digits_step)
    show ?thesis
      using len pad by (simp add: val hd toLowerCase_def low Suc_diff_le)
  qed
qed

lemma toHex_fromHex:
  assumes "is_hex s" and "s \<noteq> []"
  shows "toHex (fromHex s) = toLowerCase s"
proof -
  define v where "v = parse16 0 s"
  have v0: "0 \<le> v" unfolding v_def by (rule parse16_nonneg) simp
  from pad_hex_digits [OF assms(1)]
  have len: "length (hex_digits (nat v)) \<le> length s"
    and pad: "replicate (length s - length (hex_digits (nat v))) (CHR ''0'') @ hex_digits (nat v)
                = toLowerCase s"
    by (simp_all add: v_def)
  show ?thesis
  proof (cases "v = 0")
    case True
    then have "toLowerCase s = replicate (length s) (CHR ''0'')"
      using pad by (simp add: hex_digits_0)
    moreover have "replicate (length s - Suc 0) (CHR ''0'') @ ''0'' = replicate (length s) (CHR ''0'')"
      using assms(2) by (cases s) (simp_all add: replicate_append_same)
    ultimately show ?thesis
      using True by (simp add: toHex_def fromHex_def toString16_def padStart_def v_def [symmetric])
  next
    case False
    with v0 have "toString16 v = hex_digits (nat v)" by (simp add: toString16_def)
    then show ?thesis
      using pad by (simp add: toHex_def fromHex_def padStart_def v_def [symmetric])
  qed
qed

section \<open>The hex length carried by the results of the operations\<close>

text \<open>
  C8 (as amended). The results of \<open>a.subtract(b)\<close>, \<open>a.divide(b)\<close> and \<open>a.xor(b)\<close> carry the
  hex length of the receiver \<open>a\<close>; the result of \<open>a.mod(m)\<close> carries the hex length of the
  modulus \<open>m\<close>; the results of \<open>a.add(b)\<close> and \<open>a.multiply(b)\<close> carry none.
\<close>

theorem hexLength_of_operations:
  "hexLength (subtract a b) = hexLength a \<and>
   hexLength (divide_srp a b) = hexLength a \<and>
   hexLength (xor_srp a b) = hexLength a \<and>
   hexLength (mod_srp a m) = hexLength m \<and>
   hexLength (add a b) = None \<and>
   hexLength (multiply a b) = None"
  by (simp add: subtract_def divide_srp_def xor_srp_def mod_srp_def add_def multiply_def
      fromBigInt_def)

text \<open>
  C8 as stated fails for \<open>mod\<close>: \<open>0001\<close> (hex length 4) modulo \<open>03\<close> (hex length 2) has
  hex length 2, not the 4 of the left-hand operand.
\<close>

theorem mod_hexLength_counterexample:
  "hexLength (mod_srp (fromHex ''0001'') (fromHex ''03'')) \<noteq> hexLength (fromHex ''0001'')"
  by (simp add: mod_srp_def fromHex_def)

section \<open>The round trip through \<open>fromHex\<close> and \<open>toHex\<close>\<close>

text \<open>
  C7 (as amended). For every non-empty hex string \<open>s\<close> (of even length or not),
  \<open>fromHex(s)\<close> records the hex length \<open>length s\<close> and \<open>fromHex(s).toHex()\<close> is \<open>s\<close> in
  lower case, leading zeros included.
\<close>

theorem fromHex_toHex_roundtrip:
  assumes "is_hex s" and "s \<noteq> []"
  shows "hexLength (fromHex s) = Some (length s) \<and> toHex (fromHex s) = toLowerCase s"
  using toHex_fromHex [OF assms] by (simp add: fromHex_def)

theorem fromHex_toHex_roundtrip_witness:
  "is_hex ''00AbC1'' \<and> ''00AbC1'' \<noteq> [] \<and>
   hexLength (fromHex ''00AbC1'') = Some 6 \<and> toHex (fromHex ''00AbC1'') = ''00abc1''"
proof -
  have h: "is_hex ''00AbC1''" by (simp add: is_hex_def hexdig_def)
  have n: "''00AbC1'' \<noteq> []" by simp
  have l: "toLowerCase ''00AbC1'' = ''00abc1''" by (simp add: toLowerCase_def toLowerCase_char_def)
  show ?thesis using h fromHex_toHex_roundtrip [OF h n] by (simp add: l)
qed

text \<open>
  C7 as stated fails at the empty string, a hex string of even length: \<open>fromHex("")\<close> is
  zero with hex length 0, and \<open>toHex\<close> writes zero as \<open>"0"\<close>.
\<close>

theorem fromHex_toHex_empty_counterexample:
  "is_hex [] \<and> even (length ([] :: string)) \<and> toHex (fromHex []) = ''0'' \<and>
   toHex (fromHex []) \<noteq> toLowerCase []"
  by (simp add: is_hex_def toHex_def fromHex_def toString16_def padStart_def toLowerCase_def)

section \<open>Modular exponentiation\<close>

text \<open>
  On non-negative operands the loop computes the power modulo \<open>m\<close>; the result it starts
  from, 1, is returned as it is when the exponent is zero, so the modulus has to be at
  least 2 for the result to be reduced.
\<close>

lemma smod_nonneg_eq: "0 \<le> a \<Longrightarrow> 0 < m \<Longrightarrow> a smod m = a mod (m::int)"
  by (simp add: signed_modulo_int_def sgn_if)

lemma sdiv_nonneg_eq: "0 \<le> a \<Longrightarrow> 0 < m \<Longrightarrow> a sdiv m = a div (m::int)"
  by (simp add: signed_divide_int_def sgn_if)

lemma modexp_loop_correct:
  "0 \<le> r \<Longrightarrow> 0 \<le> b \<Longrightarrow> 0 < m \<Longrightarrow> 0 \<le> e \<Longrightarrow>
   modexp_loop r b e m = (if e = 0 then r else (r * b ^ nat e) mod m)"
proof (induction r b e m rule: modexp_loop.induct)
  case (1 r b e m)
  show ?case
  proof (cases "e = 0")
    case True
    then show ?thesis by (simp add: modexp_loop.simps)
  next
    case False
    with "1.prems" have epos: "0 < e" by simp
    define r' where "r' = (if e mod 2 = 1 then (r * b) mod m else r)"
    define b' where "b' = (b * b) mod m"
    define e' where "e' = e div 2"
    have r'0: "0 \<le> r'" using "1.prems" by (simp add: r'_def)
    have b'0: "0 \<le> b'" using "1.prems" by (simp add: b'_def)
    have e'0: "0 \<le> e'" using epos by (simp add: e'_def)
    have rb0: "0 \<le> r * b" using "1.prems" by simp
    have bb0: "0 \<le> b * b" by simp
    have s1: "e smod 2 = e mod 2" using epos by (simp add: smod_nonneg_eq)
    have s2: "(r * b) smod m = (r * b) mod m" using rb0 "1.prems" by (simp add: smod_nonneg_eq)
    have s3: "(b * b) smod m = (b * b) mod m" using bb0 "1.prems" by (simp add: smod_nonneg_eq)
    have s4: "e sdiv 2 = e div 2" using epos by (simp add: sdiv_nonneg_eq)
    have unf: "modexp_loop r b e m = modexp_loop r' b' e' m"
      unfolding r'_def b'_def e'_def
      by (subst modexp_loop.simps) (simp only: epos if_True s1 s2 s3 s4)
    have IH: "modexp_loop r' b' e' m = (if e' = 0 then r' else (r' * b' ^ nat e') mod m)"
      unfolding r'_def b'_def e'_def
      using "1.IH" [OF epos, unfolded s1 s2 s3 s4] r'0 [unfolded r'_def] b'0 [unfolded b'_def]
        e'0 [unfolded e'_def] "1.prems"(3)
      by blast
    have e_split: "nat e = 2 * nat e' + nat (e mod 2)"
    proof -
      have "nat e = nat (2 * e' + e mod 2)" by (simp add: e'_def)
      also have "\<dots> = nat (2 * e') + nat (e mod 2)"
        using e'0 by (intro nat_add_distrib) simp_all
      also have "nat (2 * e') = 2 * nat e'" by (simp add: nat_mult_distrib)
      finally show ?thesis .
    qed
    have pw: "(b' ^ nat e') mod m = (b ^ (2 * nat e')) mod m"
      by (simp add: b'_def power_mod power_mult power2_eq_square)
    have step: "(r' * b' ^ nat e') mod m = (r' * b ^ (2 * nat e')) mod m"
    proof -
      have "(r' * b' ^ nat e') mod m = (r' * (b' ^ nat e' mod m)) mod m"
        by (simp add: mod_mult_right_eq)
      also have "\<dots> = (r' * (b ^ (2 * nat e') mod m)) mod m"
        by (simp only: pw)
      also have "\<dots> = (r' * b ^ (2 * nat e')) mod m"
        by (simp add: mod_mult_right_eq)
      finally show ?thesis .
    qed
    have main: "(r' * b' ^ nat e') mod m = (r * b ^ nat e) mod m"
    proof (cases "e mod 2 = 1")
      case True
      have "(r' * b ^ (2 * nat e')) mod m = ((r * b) mod m * b ^ (2 * nat e')) mod m"
        using True by (simp add: r'_def)
      also have "\<dots> = (r * b * b ^ (2 * nat e')) mod m"
        by (simp add: mod_mult_left_eq)
      also have "\<dots> = (r * b ^ nat e) mod m"
        using True by (simp add: e_split mult.assoc)
      finally show ?thesis using step by simp
    next
      case False
      then have ev: "e mod 2 = 0" by presburger
      then show ?thesis using step by (simp add: r'_def e_split)
    qed
    show ?thesis
    proof (cases "e' = 0")
      case True
      then have e1: "e = 1" using epos unfolding e'_def by presburger
      then show ?thesis
        using unf IH True by (simp add: r'_def)
    next
      case False
      then show ?thesis using unf IH main epos by simp
    qed
  qed
qed

lemma modularExponentiation_correct:
  assumes "0 \<le> b" and "0 \<le> e" and "2 \<le> m"
  shows "modularExponentiation b e m = Inr (b ^ nat e mod m)"
proof -
  have "modexp_loop 1 (b mod m) e m = (if e = 0 then 1 else (1 * (b mod m) ^ nat e) mod m)"
    using assms by (intro modexp_loop_correct) simp_all
  then show ?thesis
    using assms by (simp add: modularExponentiation_def smod_nonneg_eq power_mod)
qed

lemma modPow_correct:
  assumes "0 \<le> bigInteger b" and "0 \<le> asBigInt e" and "2 \<le> asBigInt m"
  shows "modPow b e m = Inr (fromBigInt (bigInteger b ^ nat (asBigInt e) mod asBigInt m))"
  using modularExponentiation_correct [OF assms]
  by (simp add: modPow_def Let_def toBigInt_def bind_err_def)

text \<open>
  C6. For every base \<open>b \<ge> 0\<close>, exponent \<open>e \<ge> 0\<close> and modulus \<open>m \<ge> 1\<close>, \<open>modPow\<close> is
  \<open>b^e mod m\<close>, in \<open>[0, m)\<close>; with exponent 0 it is \<open>1 mod m\<close>. The source departs from this
  at \<open>m = 1\<close> and \<open>e = 0\<close>: it returns 1, where \<open>b^0 mod 1 = 0\<close>.
\<close>

theorem modPow_exponent_zero_modulus_one:
  "modPow (fromHex ''05'') (Native 0) (Native 1) = Inr (fromBigInt 1) \<and>
   bigInteger (fromHex ''05'') ^ nat 0 mod 1 = 0"
  by (simp add: modPow_def asBigInt_def modularExponentiation_def modexp_loop.simps bind_err_def)

section \<open>\<open>toUint8Array\<close>\<close>

lemma hexdig_not_sign: "hexdig c = Some d \<Longrightarrow> c \<noteq> CHR ''-'' \<and> c \<noteq> CHR ''+''"
  by (drule hexdig_cases) auto

lemma parseInt16_pair:
  assumes "hexdig c1 = Some d1" and "hexdig c2 = Some d2"
  shows "parseInt16 [c1, c2] = Some (int (16 * d1 + d2))"
  using assms hexdig_not_sign [OF assms(1)]
  by (simp add: parseInt16_def)

lemma toUint8_pair:
  assumes "hexdig c1 = Some d1" and "hexdig c2 = Some d2"
  shows "toUint8 (parseInt16 [c1, c2]) = of_nat (16 * d1 + d2)"
  by (simp add: parseInt16_pair [OF assms] toUint8_def)

lemma pairs_to_bytes_eq_buffer:
  "is_hex h \<Longrightarrow> even (length h) \<Longrightarrow> pairs_to_bytes h = buffer_from_hex h"
proof (induction h rule: pairs_to_bytes.induct)
  case (1 c1 c2 cs)
  from "1.prems" obtain d1 d2 where d: "hexdig c1 = Some d1" "hexdig c2 = Some d2"
    and rest: "is_hex cs" "even (length cs)"
    by (auto simp: is_hex_def)
  show ?case using "1.IH" [OF rest] by (simp add: d toUint8_pair [OF d])
qed simp_all

lemma uint_hex_pair:
  assumes "d1 < 16" and "d2 < 16"
  shows "uint (of_nat (16 * d1 + d2) :: byte) = 16 * int d1 + int d2"
proof -
  have "16 * d1 + d2 < 256" using assms by simp
  then have "unat (of_nat (16 * d1 + d2) :: byte) = 16 * d1 + d2"
    by (simp only: unat_of_nat) simp
  then have "int (unat (of_nat (16 * d1 + d2) :: byte)) = int (16 * d1 + d2)"
    by (rule arg_cong)
  then show ?thesis by (simp only: of_nat_unat of_nat_add of_nat_mult of_nat_numeral)
qed

lemma foldl_buffer_from_hex:
  "is_hex h \<Longrightarrow> even (length h) \<Longrightarrow>
   foldl (\<lambda>acc b. 256 * acc + uint b) acc (buffer_from_hex h) = parse16 acc h \<and>
   2 * length (buffer_from_hex h) = length h"
proof (induction h arbitrary: acc rule: pairs_to_bytes.induct)
  case (1 c1 c2 cs)
  from "1.prems" obtain d1 d2 where d: "hexdig c1 = Some d1" "hexdig c2 = Some d2"
    and rest: "is_hex cs" "even (length cs)"
    by (auto simp: is_hex_def)
  have u: "uint (of_nat (16 * d1 + d2) :: byte) = 16 * int d1 + int d2"
    using d by (intro uint_hex_pair hexdig_less_16)
  have lhs: "foldl (\<lambda>acc b. 256 * acc + uint b) acc (buffer_from_hex (c1 # c2 # cs))
      = foldl (\<lambda>acc b. 256 * acc + uint b) (256 * acc + (16 * int d1 + int d2))
          (buffer_from_hex cs)"
    by (simp add: d u del: of_nat_add of_nat_mult)
  have rhs: "parse16 acc (c1 # c2 # cs) = parse16 (256 * acc + (16 * int d1 + int d2)) cs"
    by (simp add: d algebra_simps)
  have len: "length (buffer_from_hex (c1 # c2 # cs)) = Suc (length (buffer_from_hex cs))"
    by (simp add: d)
  show ?case
    using "1.IH" [OF rest, of "256 * acc + (16 * int d1 + int d2)"]
    by (simp only: lhs rhs len) simp
qed simp_all

lemma hex_digits_props: "is_hex (hex_digits n) \<and> parse16 0 (hex_digits n) = int n"
proof (induction n rule: hex_digits.induct)
  case (1 n)
  show ?case
  proof (cases "n = 0")
    case True
    then show ?thesis by (simp add: hex_digits.simps is_hex_def)
  next
    case False
    have d: "hexdig (int2char (n mod 16)) = Some (n mod 16)" by (rule hexdig_int2char) simp
    have unf: "hex_digits n = hex_digits (n div 16) @ [int2char (n mod 16)]"
      using False by (subst hex_digits.simps) simp
    have "int n = int (16 * (n div 16) + n mod 16)" by simp
    then have n: "16 * int (n div 16) + int (n mod 16) = int n" by (simp only: of_nat_add of_nat_mult of_nat_numeral)
    show ?thesis
      using "1.IH" [OF False] by (simp add: unf is_hex_snoc parse16_snoc d n)
  qed
qed

lemma hex_digits_length_bounds:
  "0 < n \<Longrightarrow> 16 ^ (length (hex_digits n) - 1) \<le> n \<and> n < 16 ^ length (hex_digits n)"
proof (induction n rule: hex_digits.induct)
  case (1 n)
  from "1.prems" have n0: "n \<noteq> 0" by simp
  have unf: "hex_digits n = hex_digits (n div 16) @ [int2char (n mod 16)]"
    using n0 by (subst hex_digits.simps) simp
  show ?case
  proof (cases "n div 16 = 0")
    case True
    then have "n < 16" by (simp add: div_eq_0_iff)
    then show ?thesis using "1.prems" True by (simp add: unf hex_digits_0)
  next
    case False
    then have pos: "0 < n div 16" by simp
    define L where "L = length (hex_digits (n div 16))"
    from "1.IH" [OF n0 pos] have lo: "16 ^ (L - 1) \<le> n div 16" and hi: "n div 16 < 16 ^ L"
      by (simp_all add: L_def)
    have Lpos: "0 < L" using hi pos by (cases L) simp_all
    have "16 * 16 ^ (L - 1) \<le> 16 * (n div 16)" using lo by simp
    also have "\<dots> \<le> n" by simp
    finally have lo': "16 ^ L \<le> n" using Lpos by (cases L) simp_all
    have "n < 16 * (n div 16 + 1)" by (simp add: dividend_less_times_div)
    also have "\<dots> \<le> 16 * 16 ^ L" using hi by simp
    finally have hi': "n < 16 ^ Suc L" by simp
    show ?thesis using lo' hi' by (simp add: unf L_def [symmetric])
  qed
qed

lemma ceiling_bitlen_bytes:
  assumes "0 < v" and "0 < B" and "256 ^ (B - 1) \<le> v" and "v < 256 ^ B"
  shows "\<lceil>real_of_int (bitlen v) / 8\<rceil> = int B"
proof -
  define bl where "bl = bitlen v"
  from bitlen_bounds [OF assms(1)]
  have lo: "2 ^ nat (bl - 1) \<le> v" and hi: "v < 2 ^ nat bl" by (simp_all add: bl_def)
  have bl1: "1 \<le> bl" using assms(1) bitlen_eq_zero_iff [of v] bitlen_nonneg [of v]
    unfolding bl_def by linarith
  have p: "(256::int) ^ k = 2 ^ (8 * k)" for k
  proof -
    have "(256::int) = 2 ^ 8" by simp
    then show ?thesis by (simp only: power_mult)
  qed
  have "(2::int) ^ nat (bl - 1) < 2 ^ (8 * B)" using lo assms(4) unfolding p by (rule le_less_trans)
  then have a: "nat (bl - 1) < 8 * B" by simp
  have "(2::int) ^ (8 * (B - 1)) < 2 ^ nat bl" using assms(3) hi unfolding p by (rule le_less_trans)
  then have b: "8 * (B - 1) < nat bl" by simp
  from a bl1 have up: "bl \<le> 8 * int B" by linarith
  from b bl1 assms(2) have dn: "8 * int B - 8 < bl" by linarith
  have "real_of_int bl \<le> real_of_int (8 * int B)" using up by (simp only: of_int_le_iff)
  then have up': "real_of_int bl \<le> 8 * real B" by simp
  have "real_of_int (8 * int B - 8) < real_of_int bl" using dn by (simp only: of_int_less_iff)
  then have dn': "8 * real B - 8 < real_of_int bl" by simp
  show ?thesis
    unfolding bl_def [symmetric] using up' dn' by (simp add: ceiling_eq_iff field_simps)
qed

lemma toUint8Array_zero:
  "bigInteger v = 0 \<Longrightarrow> toUint8Array v = [0]"
  by (simp add: toUint8Array_def toString16_def Let_def hexdig_def parseInt16_def toUint8_def)

lemma toUint8Array_positive:
  assumes "0 < bigInteger v"
  shows "toUint8Array v = buffer_from_hex (pad_even (toString16 (bigInteger v)))"
    and "big_endian (toUint8Array v) = bigInteger v"
    and "\<lceil>real_of_int (bitlen (bigInteger v)) / 8\<rceil> = int (length (toUint8Array v))"
proof -
  define n where "n = nat (bigInteger v)"
  define hex where "hex = hex_digits n"
  define L where "L = length hex"
  have npos: "0 < n" using assms by (simp add: n_def)
  have ts: "toString16 (bigInteger v) = hex" using assms by (simp add: toString16_def hex_def n_def)
  have hx: "is_hex hex" and pv: "parse16 0 hex = int n"
    using hex_digits_props [of n] by (simp_all add: hex_def)
  from hex_digits_length_bounds [OF npos]
  have lo: "16 ^ (L - 1) \<le> n" and hi: "n < 16 ^ L" by (simp_all add: hex_def L_def)
  have Lpos: "0 < L" using hi npos by (cases L) simp_all
  have z: "hexdig (CHR ''0'') = Some 0" by (simp add: hexdig_def)
  have ph: "is_hex (pad_even hex)" using hx z by (simp add: pad_even_def is_hex_def)
  have pe: "even (length (pad_even hex))" by (simp add: pad_even_def)
  have pp: "parse16 0 (pad_even hex) = int n" using pv z by (simp add: pad_even_def)
  have tu: "toUint8Array v = pairs_to_bytes (pad_even hex)"
    by (simp add: toUint8Array_def ts Let_def pad_even_def even_iff_mod_2_eq_zero)
  show eq: "toUint8Array v = buffer_from_hex (pad_even (toString16 (bigInteger v)))"
    using pairs_to_bytes_eq_buffer [OF ph pe] by (simp add: tu ts)
  from foldl_buffer_from_hex [OF ph pe, of 0]
  have val: "big_endian (buffer_from_hex (pad_even hex)) = int n"
    and len: "2 * length (buffer_from_hex (pad_even hex)) = length (pad_even hex)"
    by (simp_all add: big_endian_def pp)
  show "big_endian (toUint8Array v) = bigInteger v"
    using val assms by (simp add: eq ts n_def)
  define B where "B = length (toUint8Array v)"
  have B2: "2 * B = (if odd L then Suc L else L)"
    using len by (simp add: B_def eq ts pad_even_def L_def)
  have Bpos: "0 < B" using B2 Lpos by (cases B) (simp_all split: if_splits)
  have p: "(256::nat) ^ k = 16 ^ (2 * k)" for k
  proof -
    have "(256::nat) = 16 ^ 2" by simp
    then show ?thesis by (simp only: power_mult)
  qed
  have "(256::nat) ^ (B - 1) \<le> 16 ^ (L - 1)"
    unfolding p by (rule power_increasing) (use B2 in \<open>auto split: if_splits\<close>)
  then have lo': "256 ^ (B - 1) \<le> n" using lo by simp
  have "(16::nat) ^ L \<le> 256 ^ B"
    unfolding p by (rule power_increasing) (use B2 in \<open>auto split: if_splits\<close>)
  then have hi': "n < 256 ^ B" using hi by simp
  have lo'': "256 ^ (B - 1) \<le> bigInteger v"
  proof -
    have "int (256 ^ (B - 1)) \<le> int n" using lo' by (simp only: of_nat_le_iff)
    then show ?thesis using assms by (simp add: n_def)
  qed
  have hi'': "bigInteger v < 256 ^ B"
  proof -
    have "int n < int (256 ^ B)" using hi' by (simp only: of_nat_less_iff)
    then show ?thesis using assms by (simp add: n_def)
  qed
  show "\<lceil>real_of_int (bitlen (bigInteger v)) / 8\<rceil> = int (length (toUint8Array v))"
    using ceiling_bitlen_bytes [OF assms Bpos lo'' hi''] by (simp add: B_def)
qed

text \<open>
  C9 (as amended). For every TypeSRP \<open>v\<close> with a non-negative value, \<open>toUint8Array\<close> returns
  the bytes that the hex digits of \<open>v\<close>, brought to even length by a zero in front, decode
  to; they denote \<open>v\<close> in big-endian order; and their number is \<open>ceil(bitlen(v)/8)\<close> when
  \<open>v > 0\<close>, and 1 (the single byte 0) when \<open>v = 0\<close>.
\<close>

theorem toUint8Array_bytes:
  assumes "0 \<le> bigInteger v"
  shows "toUint8Array v = buffer_from_hex (pad_even (toString16 (bigInteger v))) \<and>
         big_endian (toUint8Array v) = bigInteger v \<and>
         int (length (toUint8Array v)) =
           (if bigInteger v = 0 then 1 else \<lceil>real_of_int (bitlen (bigInteger v)) / 8\<rceil>)"
proof (cases "bigInteger v = 0")
  case True
  then show ?thesis
    by (simp add: toUint8Array_zero toString16_def pad_even_def hexdig_def big_endian_def)
next
  case False
  with assms have "0 < bigInteger v" by simp
  from toUint8Array_positive [OF this] False show ?thesis by simp
qed

theorem toUint8Array_bytes_witness:
  "0 \<le> bigInteger (fromHex ''0abc'') \<and>
   toUint8Array (fromHex ''0abc'') = [0x0a, 0xbc] \<and>
   big_endian (toUint8Array (fromHex ''0abc'')) = 2748 \<and>
   int (length (toUint8Array (fromHex ''0abc''))) = \<lceil>real_of_int (bitlen 2748) / 8\<rceil>"
proof -
  have v: "bigInteger (fromHex ''0abc'') = 2748" by (simp add: fromHex_def hexdig_def)
  have h: "0 \<le> bigInteger (fromHex ''0abc'')" by (simp add: v)
  have t: "toUint8Array (fromHex ''0abc'') = [0x0a, 0xbc]"
    by (simp add: toUint8Array_def v toString16_def hex_digits.simps int2char_def Let_def
        parseInt16_def hexdig_def toUint8_def)
  note r = toUint8Array_bytes [OF h, unfolded v]
  from r have a: "big_endian (toUint8Array (fromHex ''0abc'')) = 2748"
    by (rule conjunct1 [OF conjunct2])
  from r have "int (length (toUint8Array (fromHex ''0abc''))) =
      (if (2748::int) = 0 then 1 else \<lceil>real_of_int (bitlen 2748) / 8\<rceil>)"
    by (rule conjunct2 [OF conjunct2])
  then have b: "int (length (toUint8Array (fromHex ''0abc''))) = \<lceil>real_of_int (bitlen 2748) / 8\<rceil>"
    by (simp only: numeral_eq_iff num.distinct if_False zero_neq_numeral numeral_neq_zero)
  show ?thesis using h t a b by (intro conjI)
qed

text \<open>
  C9 as stated fails at ZERO: its digit string is \<open>"0"\<close>, padded to \<open>"00"\<close>, which is one
  byte, while \<open>ceil(bitlen(0)/8) = 0\<close>.
\<close>

theorem toUint8Array_ZERO_counterexample:
  "length (toUint8Array ZERO) \<noteq> 0 \<and>
   int (length (toUint8Array ZERO)) \<noteq> \<lceil>real_of_int (bitlen (bigInteger ZERO)) / 8\<rceil>"
  by (simp add: toUint8Array_zero ZERO_def)

section \<open>The hash H\<close>

lemma state_bytes_length: "length (state_bytes st) = 32"
  by (cases st rule: state_bytes.cases) (simp add: word_bytes_def)

lemma sha256_digest_length: "length (sha256_digest msg) = 32"
  by (simp add: sha256_digest_def state_bytes_length)

lemma hash_loop_append:
  "ArgOther \<notin> set args \<Longrightarrow> hash_loop h args = Inr (h @ concat (map absorbed args))"
  by (induction h args rule: hash_loop.induct) simp_all

lemma hash_loop_other:
  "ArgOther \<in> set args \<Longrightarrow> hash_loop h args = Inl BadArgumentKind"
  by (induction h args rule: hash_loop.induct) simp_all

lemma hash_value:
  "ArgOther \<notin> set args \<Longrightarrow> hash args = Inr (H_value args)"
  by (simp add: hash_def H_value_def hash_loop_append bind_err_def)

lemma hash_other:
  "ArgOther \<in> set args \<Longrightarrow> hash args = Inl BadArgumentKind"
  by (simp add: hash_def hash_loop_other bind_err_def)

lemma byte_hex_props:
  "is_hex (byte_hex b) \<and> parse16 acc (byte_hex b) = 256 * acc + uint b"
proof -
  have d1: "hexdig (int2char (unat b div 16)) = Some (unat b div 16)"
  proof (rule hexdig_int2char)
    have "unat b < 256" using unsigned_less [of b, where 'a = nat] by simp
    then show "unat b div 16 < 16" by simp
  qed
  have d2: "hexdig (int2char (unat b mod 16)) = Some (unat b mod 16)"
    by (rule hexdig_int2char) simp
  have "int (unat b) = int (16 * (unat b div 16) + unat b mod 16)" by simp
  then have "uint b = 16 * int (unat b div 16) + int (unat b mod 16)"
    by (simp only: of_nat_unat of_nat_add of_nat_mult of_nat_numeral)
  then show ?thesis by (simp add: byte_hex_def is_hex_def d1 d2)
qed

lemma parse16_append_hex: "parse16 acc (s @ t) = parse16 (parse16 acc s) t"
  by (induction s arbitrary: acc) (simp_all split: option.splits)

lemma is_hex_append: "is_hex (s @ t) \<longleftrightarrow> is_hex s \<and> is_hex t"
  by (simp add: is_hex_def)

lemma digest_hex_props:
  "is_hex (digest_hex bs) \<and> length (digest_hex bs) = 2 * length bs \<and>
   parse16 acc (digest_hex bs) = foldl (\<lambda>acc b. 256 * acc + uint b) acc bs"
proof (induction bs arbitrary: acc)
  case Nil
  show ?case by (simp add: digest_hex_def is_hex_def)
next
  case (Cons b bs)
  have l: "length (byte_hex b) = 2" by (simp add: byte_hex_def)
  show ?case
    using Cons.IH [of "256 * acc + uint b"] byte_hex_props [of b acc]
    by (simp add: digest_hex_def is_hex_append parse16_append_hex l)
qed

lemma H_value_eq:
  "H_value args =
     \<lparr>bigInteger = big_endian (sha256_digest (concat (map absorbed args))), hexLength = Some 64\<rparr>"
  using digest_hex_props [of "sha256_digest (concat (map absorbed args))" 0]
  by (simp add: H_value_def fromHex_def big_endian_def sha256_digest_length)

lemma H_value_nonneg: "0 \<le> bigInteger (H_value args)"
  by (simp add: H_value_def fromHex_def parse16_nonneg)

text \<open>
  On arguments that are TypeSRP or strings, \<open>hash\<close> returns the digest read as a big-endian
  integer, with hex length 64; any other argument makes it throw.
\<close>

lemma hash_characterisation:
  "hash args =
     (if ArgOther \<in> set args then Inl BadArgumentKind
      else Inr \<lparr>bigInteger = big_endian (sha256_digest (concat (map absorbed args))),
                hexLength = Some 64\<rparr>)"
  by (simp add: hash_other hash_value H_value_eq)

text \<open>
  C10. There are two distinct TypeSRP values on which H returns equal digests: \<open>0xabc\<close> and
  \<open>0xabd\<close>, without hex length, are written \<open>abc\<close> and \<open>abd\<close>; the conversion to bytes drops
  the final digit of each, both are absorbed as the one byte \<open>ab\<close>, and two calls of H that
  differ in that argument only return the same.
\<close>

theorem hash_drops_final_hex_digit:
  "bigInteger (fromBigInt 0xabc) \<noteq> bigInteger (fromBigInt 0xabd) \<and>
   toHex (fromBigInt 0xabc) = ''abc'' \<and> toHex (fromBigInt 0xabd) = ''abd'' \<and>
   buffer_from_hex (toHex (fromBigInt 0xabc)) = [0xab] \<and>
   buffer_from_hex (toHex (fromBigInt 0xabd)) = [0xab] \<and>
   hash (pre @ ArgSRP (fromBigInt 0xabc) # post) = hash (pre @ ArgSRP (fromBigInt 0xabd) # post) \<and>
   hash [ArgSRP (fromBigInt 0xabc)] = Inr (H_value [ArgSRP (fromBigInt 0xabd)])"
proof -
  have c: "toHex (fromBigInt 0xabc) = ''abc''"
    by (simp add: toHex_def fromBigInt_def toString16_def hex_digits.simps int2char_def)
  have d: "toHex (fromBigInt 0xabd) = ''abd''"
    by (simp add: toHex_def fromBigInt_def toString16_def hex_digits.simps int2char_def)
  have bc: "buffer_from_hex ''abc'' = [0xab]" by (simp add: hexdig_def)
  have bd: "buffer_from_hex ''abd'' = [0xab]" by (simp add: hexdig_def)
  have ab: "absorbed (ArgSRP (fromBigInt 0xabc)) = absorbed (ArgSRP (fromBigInt 0xabd))"
    by (simp add: c d hexdig_def)
  have loop: "hash_loop h (pre @ ArgSRP (fromBigInt 0xabc) # post)
      = hash_loop h (pre @ ArgSRP (fromBigInt 0xabd) # post)" for h
  proof (induction h pre rule: hash_loop.induct)
    case (1 h)
    show ?case using ab by simp
  qed simp_all
  have one: "hash [ArgSRP (fromBigInt 0xabc)] = Inr (H_value [ArgSRP (fromBigInt 0xabd)])"
    using ab by (simp add: hash_value H_value_def)
  have ne: "bigInteger (fromBigInt 0xabc) \<noteq> bigInteger (fromBigInt 0xabd)"
    by (simp add: fromBigInt_def)
  have hh: "hash (pre @ ArgSRP (fromBigInt 0xabc) # post)
      = hash (pre @ ArgSRP (fromBigInt 0xabd) # post)"
    by (simp only: hash_def loop)
  have b1: "buffer_from_hex (toHex (fromBigInt 0xabc)) = [0xab]" by (simp only: c bc)
  have b2: "buffer_from_hex (toHex (fromBigInt 0xabd)) = [0xab]" by (simp only: d bd)
  show ?thesis using ne c d b1 b2 hh one by (intro conjI)
qed

text \<open>
  C2. H absorbs a TypeSRP argument as the bytes of its hex encoding brought to even length.
  The source departs from this when \<open>toHex\<close> has an odd number of digits: for \<open>0xabc\<close> it
  absorbs the one byte \<open>ab\<close>, where the even-length encoding \<open>0abc\<close> is the two bytes
  \<open>0a bc\<close> that \<open>toUint8Array\<close> returns.
\<close>

theorem hash_absorbs_truncated_hex:
  "hash [ArgSRP (fromBigInt 0xabc)] = Inr (fromHex (digest_hex (sha256_digest [0xab]))) \<and>
   buffer_from_hex (pad_even (toHex (fromBigInt 0xabc))) = [0x0a, 0xbc] \<and>
   toUint8Array (fromBigInt 0xabc) = [0x0a, 0xbc]"
proof -
  have c: "toHex (fromBigInt 0xabc) = ''abc''"
    by (simp add: toHex_def fromBigInt_def toString16_def hex_digits.simps int2char_def)
  have t: "toUint8Array (fromBigInt 0xabc) = [0x0a, 0xbc]"
    by (simp add: toUint8Array_def fromBigInt_def toString16_def hex_digits.simps int2char_def
        Let_def parseInt16_def hexdig_def toUint8_def)
  show ?thesis
    by (simp add: hash_def bind_err_def c t pad_even_def hexdig_def)
qed

section \<open>The SRP client\<close>

lemma bind_err_Inr: "bind_err (Inr v) f = f v"
  by (simp add: bind_err_def)

lemma bn_mod_nonneg: "0 \<le> a \<Longrightarrow> 0 < m \<Longrightarrow> bn_mod a m = a mod m"
  by (simp add: bn_mod_def)

lemma params_N_value: "bigInteger params_N = 0xFFFFFFFFFFFFFFFFC90FDAA22168C234C4C6628B80DC1CD129024E088A67CC74020BBEA63B139B22514A08798E3404DDEF9519B3CD3A431B302B0A6DF25F14374FE1356D6D51C245E485B576625E7EC6F44C42E9A637ED6B0BFF5CB6F406B7EDEE386BFB5A899FA5AE9F24117C4B1FE649286651ECE45B3DC2007CB8A163BF0598DA48361C55D39A69163FA8FD24CF5F83655D23DCA3AD961C62F356208552BB9ED529077096966D670C354E4ABC9804F1746C08CA18217C32905E462E36CE3BE39E772C180E86039B2783A2EC07A28FB5C55DF06F4C52C9DE2BCBF6955817183995497CEA956AE515D2261898FA051015728E5A8AAAC42DAD33170D04507A33A85521ABDF1CBA64ECFB850458DBEF0A8AEA71575D060C7DB3970F85A6E1E4C7ABF5AE8CDB0933D71E8C94E04A25619DCEE3D2261AD2EE6BF12FFA06D98A0864D87602733EC86A64521F2B18177B200CBBE117577A615D6C770988C0BAD946E208E24FA074E5AB3143DB5BFCE0FD108E4B82D120A93AD2CAFFFFFFFFFFFFFFFF"
  by code_simp

lemma params_N_ge_2: "2 \<le> bigInteger params_N"
  by (simp add: params_N_value)

lemma params_g_value: "bigInteger params_g = 5"
  by (simp add: params_g_def remove_spaces_def is_space_def fromHex_def hexdig_def)

lemma params_k_value: "params_k = Inr (H_value [ArgSRP params_N, ArgSRP params_g])"
  by (simp add: params_k_def hash_value)

lemma fromHex_nonneg: "0 \<le> bigInteger (fromHex s)"
  by (simp add: fromHex_def parse16_nonneg)

lemma deriveSession_cases:
  "deriveSession a B s I x =
     (if bigInteger (fromHex B) mod bigInteger params_N = 0 then Inl InvalidServerEphemeral
      else Inr (deriveSession_value a B s I x))"
proof -
  define N where "N = bigInteger params_N"
  define k where "k = H_value [ArgSRP params_N, ArgSRP params_g]"
  define ai where "ai = bigInteger (fromHex a)"
  define Bi where "Bi = bigInteger (fromHex B)"
  define xi where "xi = bigInteger (fromHex x)"
  define A where "A = fromBigInt (5 ^ nat ai mod N)"
  define u where "u = H_value [ArgSRP A, ArgSRP (fromHex B)]"
  define gx where "gx = fromBigInt (5 ^ nat xi mod N)"
  define base where "base = (Bi + N - (bigInteger k * 5 ^ nat xi mod N)) mod N"
  define S where "S = fromBigInt (base ^ nat (ai + bigInteger u * xi) mod N)"
  have N2: "2 \<le> N" unfolding N_def by (rule params_N_ge_2)
  have Npos: "0 < N" using N2 by simp
  have ai0: "0 \<le> ai" and Bi0: "0 \<le> Bi" and xi0: "0 \<le> xi"
    by (simp_all add: ai_def Bi_def xi_def fromHex_nonneg)
  have k0: "0 \<le> bigInteger k" and u0: "0 \<le> bigInteger u"
    by (simp_all add: k_def u_def H_value_nonneg)
  have chk: "equals (mod_srp (fromHex B) params_N) ZERO \<longleftrightarrow> Bi mod N = 0"
    using Bi0 Npos
    by (simp add: equals_def mod_srp_def ZERO_def bn_mod_nonneg Bi_def [symmetric] N_def [symmetric])
  have mA: "modPow params_g (SRP (fromHex a)) (SRP params_N) = Inr A"
    using modPow_correct [of params_g "SRP (fromHex a)" "SRP params_N"] ai0 N2
    by (simp add: asBigInt_def toBigInt_def params_g_value A_def ai_def N_def)
  have mgx: "modPow params_g (SRP (fromHex x)) (SRP params_N) = Inr gx"
    using modPow_correct [of params_g "SRP (fromHex x)" "SRP params_N"] xi0 N2
    by (simp add: asBigInt_def toBigInt_def params_g_value gx_def xi_def N_def)
  have sub0: "bigInteger k * (5 ^ nat xi mod N) mod N < N"
    using Npos by simp
  have inner: "bn_mod (bigInteger k * (5 ^ nat xi mod N)) N = bigInteger k * 5 ^ nat xi mod N"
    using k0 Npos by (simp add: bn_mod_nonneg mod_mult_right_eq)
  have diff0: "0 \<le> Bi + N - (bigInteger k * 5 ^ nat xi mod N)"
  proof -
    have "bigInteger k * 5 ^ nat xi mod N < N" using Npos by simp
    then show ?thesis using Bi0 by simp
  qed
  have bs: "mod_srp (subtract (add (fromHex B) params_N) (mod_srp (multiply k gx) params_N)) params_N
      = \<lparr>bigInteger = base, hexLength = hexLength params_N\<rparr>"
    using diff0 Npos
    by (simp add: mod_srp_def subtract_def add_def multiply_def toBigInt_def fromBigInt_def
        gx_def inner bn_mod_nonneg base_def Bi_def [symmetric] N_def [symmetric])
  have base0: "0 \<le> base" using Npos by (simp add: base_def)
  have ex0: "0 \<le> ai + bigInteger u * xi" using ai0 u0 xi0 by simp
  have mS: "modPow (mod_srp (subtract (add (fromHex B) params_N) (mod_srp (multiply k gx) params_N))
                params_N)
              (SRP (add (fromHex a) (multiply u (fromHex x)))) (SRP params_N) = Inr S"
    unfolding bs
    using modPow_correct [of "\<lparr>bigInteger = base, hexLength = hexLength params_N\<rparr>"
        "SRP (add (fromHex a) (multiply u (fromHex x)))" "SRP params_N"] base0 ex0 N2
    by (simp add: asBigInt_def toBigInt_def add_def multiply_def fromBigInt_def S_def
        ai_def [symmetric] xi_def [symmetric] N_def [symmetric])
  have spec: "deriveSession_value a B s I x =
      \<lparr>session_key = toHex (H_value [ArgSRP S]),
       session_proof = toHex (H_value
         [ArgSRP (xor_srp (H_value [ArgSRP params_N]) (H_value [ArgSRP params_g])),
          ArgSRP (H_value [ArgString I]), ArgSRP (fromHex s), ArgSRP A, ArgSRP (fromHex B),
          ArgSRP (H_value [ArgSRP S])])\<rparr>"
    by (simp add: deriveSession_value_def Let_def params_g_value S_def base_def u_def A_def
        k_def ai_def Bi_def xi_def N_def)
  show ?thesis
    unfolding deriveSession_def Let_def params_k_value bind_err_Inr k_def [symmetric]
    by (simp add: chk mA mgx mS hash_value bind_err_Inr spec u_def [symmetric]
        Bi_def [symmetric] N_def [symmetric])
qed

text \<open>
  C4. \<open>deriveSession\<close> fails with InvalidServerEphemeral if and only if \<open>B mod N = 0\<close>; it
  fails in no other case, and a failed call returns no session.
\<close>

theorem deriveSession_invalid_server_ephemeral:
  assumes "is_hex a" and "is_hex B" and "is_hex s" and "is_hex x"
  shows "(deriveSession a B s I x = Inl InvalidServerEphemeral
            \<longleftrightarrow> bigInteger (fromHex B) mod bigInteger params_N = 0) \<and>
         (isl (deriveSession a B s I x)
            \<longleftrightarrow> bigInteger (fromHex B) mod bigInteger params_N = 0)"
  by (simp add: deriveSession_cases)

theorem deriveSession_invalid_server_ephemeral_witness:
  "is_hex ''01'' \<and> is_hex ''00'' \<and> is_hex ''00ff'' \<and> is_hex ''03'' \<and>
   bigInteger (fromHex ''00'') mod bigInteger params_N = 0 \<and>
   deriveSession ''01'' ''00'' ''00ff'' ''alice'' ''03'' = Inl InvalidServerEphemeral"
proof -
  have h1: "is_hex ''01''" and h2: "is_hex ''00''" and h3: "is_hex ''00ff''"
    and h4: "is_hex ''03''"
    by (simp_all add: is_hex_def hexdig_def)
  have z: "bigInteger (fromHex ''00'') mod bigInteger params_N = 0"
    by (simp add: fromHex_def hexdig_def)
  from deriveSession_invalid_server_ephemeral [OF h1 h2 h3 h4, of "''alice''"] z
  have "deriveSession ''01'' ''00'' ''00ff'' ''alice'' ''03'' = Inl InvalidServerEphemeral"
    by blast
  with h1 h2 h3 h4 z show ?thesis by (intro conjI)
qed



section \<open>The verifier hash\<close>

text \<open>
  Decoding hex digits to bytes and writing bytes as hex digits undo each other, up to the
  case of the letters and the digit dropped at an odd length.
\<close>

lemma toLowerCase_char_int2char: "d < 16 \<Longrightarrow> toLowerCase_char (int2char d) = int2char d"
  using int2char_of_hexdig [OF hexdig_int2char, of d] by simp



lemma toLowerCase_digest_hex: "toLowerCase (digest_hex bs) = digest_hex bs"
proof (induction bs)
  case Nil
  show ?case by (simp add: digest_hex_def toLowerCase_def)
next
  case (Cons b bs)
  have "unat b < 256" using unsigned_less [of b, where 'a = nat] by simp
  then have "unat b div 16 < 16" by simp
  then have "map toLowerCase_char (byte_hex b) = byte_hex b"
    by (simp add: byte_hex_def toLowerCase_char_int2char)
  then show ?case using Cons.IH by (simp add: digest_hex_def toLowerCase_def)
qed

lemma toHex_H_value:
  "toHex (H_value args) = digest_hex (sha256_digest (concat (map absorbed args)))"
proof -
  define d where "d = sha256_digest (concat (map absorbed args))"
  have hx: "is_hex (digest_hex d)" and len: "length (digest_hex d) = 64"
    using digest_hex_props [of d 0] by (simp_all add: d_def sha256_digest_length)
  from len have ne: "digest_hex d \<noteq> []" by auto
  show ?thesis
    using toHex_fromHex [OF hx ne] by (simp add: H_value_def d_def toLowerCase_digest_hex)
qed













section \<open>The session where a hashed integer has an odd number of hex digits\<close>

lemma one_mod_N: "1 mod bigInteger params_N = 1"
  using params_N_ge_2 by simp

lemma spec_to_hex_digest_01:
  "spec_to_hex (spec_H [SpecBigInt \<lparr>bigInteger = 1, hexLength = None\<rparr>])
     = ''4bf5122f344554c53bde2ebb8cd2b7e3d1600ad631c385a5d7cce23c7785459a''"
proof -
  have b: "spec_bigint_bytes \<lparr>bigInteger = 1, hexLength = None\<rparr> = [1]"
    by (simp add: spec_bigint_bytes_def spec_hex_length_def spec_min_digits.simps)
  have d: "sha256_digest [1] = [75, 245, 18, 47, 52, 69, 84, 197, 59, 222, 46, 187, 140, 210, 183, 227, 209, 96, 10, 214, 49, 195, 133, 165, 215, 204, 226, 60, 119, 133, 69, 154]"
    by code_simp
  have v: "big_endian [75, 245, 18, 47, 52, 69, 84, 197, 59, 222, 46, 187, 140, 210, 183, 227, 209, 96, 10, 214, 49, 195, 133, 165, 215, 204, 226, 60, 119, 133, 69, 154] = 34356466678672179216206944866734405838331831190171667647615530531663699592602"
    by (simp add: big_endian_def)
  show ?thesis
    by (simp add: spec_H_def b d v spec_to_hex_def spec_hex_length_def spec_min_digits.simps
        Let_def int2char_def)
qed

lemma spec_to_hex_digest_05_0abc:
  "spec_to_hex (spec_H [SpecBigInt (fromBigInt 5), SpecBigInt (fromHex ''0abc'')])
     = ''b1533c3a20788885d02d88c8c3ff2652d2f5f24444a142e50465ba11160a8bbf''"
proof -
  have b: "spec_bigint_bytes (fromBigInt 5) = [5]"
    by (simp add: spec_bigint_bytes_def spec_hex_length_def spec_min_digits.simps
        fromBigInt_def)
  have c: "spec_bigint_bytes (fromHex ''0abc'') = [0x0a, 0xbc]"
    by (simp add: spec_bigint_bytes_def spec_hex_length_def spec_min_digits.simps
        fromHex_def hexdig_def)
  have d: "sha256_digest [5, 0x0a, 0xbc] = [177, 83, 60, 58, 32, 120, 136, 133, 208, 45, 136, 200, 195, 255, 38, 82, 210, 245, 242, 68, 68, 161, 66, 229, 4, 101, 186, 17, 22, 10, 139, 191]"
    by code_simp
  have v: "big_endian [177, 83, 60, 58, 32, 120, 136, 133, 208, 45, 136, 200, 195, 255, 38, 82, 210, 245, 242, 68, 68, 161, 66, 229, 4, 101, 186, 17, 22, 10, 139, 191] = 80206438177492048623644666887738078393727087663977256099925798463505875766207"
    by (simp add: big_endian_def)
  show ?thesis
    by (simp add: spec_H_def b c d v spec_to_hex_def spec_hex_length_def spec_min_digits.simps
        Let_def int2char_def)
qed

text \<open>
  C1. For hex strings \<open>a\<close>, \<open>B\<close>, \<open>s\<close>, \<open>x\<close> with \<open>B mod N\<close> not zero, \<open>deriveSession\<close> returns the
  key \<open>K.to_hex()\<close> and the proof \<open>M.to_hex()\<close> of \<open>A = g^a mod N\<close>, \<open>u = H(A, B)\<close>,
  \<open>S = ((B + N - (k g^x mod N)) mod N)^(a + u x) mod N\<close>, \<open>K = H(S)\<close> and
  \<open>M = H(H(N) xor H(g), H(I), s, A, B, K)\<close>. The source departs from this where \<open>A\<close> or \<open>S\<close>
  is written with an odd number of hex digits, its hash dropping the last digit (C2).
  For \<open>a = 01\<close> and \<open>B = 0abc\<close>, \<open>A = 5\<close> is written \<open>5\<close> and absorbed as no byte, so that
  \<open>u\<close> is the digest of \<open>0a bc\<close> where the H of the specification gives the digest of
  \<open>05 0a bc\<close>. For \<open>a = 00\<close> and \<open>x = 00\<close>, \<open>S = 1\<close> and the key returned is the digest of the
  empty byte string, where the specification's key is the digest of the byte \<open>01\<close>.
\<close>

theorem deriveSession_odd_hex_length:
  "modPow params_g (SRP (fromHex ''01'')) (SRP params_N) = Inr (fromBigInt 5) \<and>
   toHex (fromBigInt 5) = ''5'' \<and>
   hash [ArgSRP (fromBigInt 5), ArgSRP (fromHex ''0abc'')]
     = Inr (fromHex ''1870348e36542f82a2bb6b134f9bda817cbc1f946dda37a0cce5b5221b9f0304'') \<and>
   spec_to_hex (spec_H [SpecBigInt (fromBigInt 5), SpecBigInt (fromHex ''0abc'')])
     = ''b1533c3a20788885d02d88c8c3ff2652d2f5f24444a142e50465ba11160a8bbf'' \<and>
   map_sum id session_key (deriveSession ''00'' ''0abc'' ''00ff'' ''alice'' ''00'')
     = Inr ''e3b0c44298fc1c149afbf4c8996fb92427ae41e4649b934ca495991b7852b855'' \<and>
   session_key (spec_deriveSession ''00'' ''0abc'' ''00ff'' ''alice'' ''00'')
     = ''4bf5122f344554c53bde2ebb8cd2b7e3d1600ad631c385a5d7cce23c7785459a''"
proof -
  have b: "bigInteger (fromHex ''0abc'') = 2748" by (simp add: fromHex_def hexdig_def)
  have z: "bigInteger (fromHex ''00'') = 0" by (simp add: fromHex_def hexdig_def)
  have o: "bigInteger (fromHex ''01'') = 1" by (simp add: fromHex_def hexdig_def)
  have lt: "2748 < bigInteger params_N" by (simp add: params_N_value)
  have five: "5 mod bigInteger params_N = 5" by (simp add: params_N_value)
  have t5: "toHex (fromBigInt 5) = ''5''"
    by (simp add: toHex_def fromBigInt_def toString16_def hex_digits.simps int2char_def)
  have t1: "toHex (fromBigInt 1) = ''1''"
    by (simp add: toHex_def fromBigInt_def toString16_def hex_digits.simps int2char_def)
  have tB: "toHex (fromHex ''0abc'') = ''0abc''"
    by (simp add: toHex_def fromHex_def toString16_def hex_digits.simps int2char_def
        padStart_def hexdig_def)
  have A: "modPow params_g (SRP (fromHex ''01'')) (SRP params_N) = Inr (fromBigInt 5)"
    using modPow_correct [of params_g "SRP (fromHex ''01'')" "SRP params_N"] params_N_ge_2
    by (simp add: asBigInt_def toBigInt_def params_g_value o five)
  have dc: "digest_hex (sha256_digest [0x0a, 0xbc]) = ''1870348e36542f82a2bb6b134f9bda817cbc1f946dda37a0cce5b5221b9f0304''"
    by code_simp
  have u: "hash [ArgSRP (fromBigInt 5), ArgSRP (fromHex ''0abc'')] = Inr (fromHex ''1870348e36542f82a2bb6b134f9bda817cbc1f946dda37a0cce5b5221b9f0304'')"
    by (simp add: hash_value H_value_def t5 tB hexdig_def dc)
  have d0: "digest_hex (sha256_digest []) = ''e3b0c44298fc1c149afbf4c8996fb92427ae41e4649b934ca495991b7852b855''"
    by code_simp
  have cond: "bigInteger (fromHex ''0abc'') mod bigInteger params_N \<noteq> 0"
    using lt by (simp add: b)
  have kv: "session_key (deriveSession_value ''00'' ''0abc'' ''00ff'' ''alice'' ''00'')
      = toHex (H_value [ArgSRP (fromBigInt 1)])"
    by (simp add: deriveSession_value_def Let_def z one_mod_N)
  have "toHex (H_value [ArgSRP (fromBigInt 1)]) = ''e3b0c44298fc1c149afbf4c8996fb92427ae41e4649b934ca495991b7852b855''"
    by (simp add: toHex_H_value t1 d0)
  with kv cond have key: "map_sum id session_key
      (deriveSession ''00'' ''0abc'' ''00ff'' ''alice'' ''00'') = Inr ''e3b0c44298fc1c149afbf4c8996fb92427ae41e4649b934ca495991b7852b855''"
    by (simp add: deriveSession_cases)
  have skey: "session_key (spec_deriveSession ''00'' ''0abc'' ''00ff'' ''alice'' ''00'')
      = ''4bf5122f344554c53bde2ebb8cd2b7e3d1600ad631c385a5d7cce23c7785459a''"
    by (simp add: spec_deriveSession_def Let_def z one_mod_N spec_to_hex_digest_01)
  show ?thesis
    using A t5 u spec_to_hex_digest_05_0abc key skey by (intro conjI)
qed

end
